theory Spec2Isabelle
  imports Main "HOL-Library.Sublist"
begin

section \<open>Text and character classes\<close>

text \<open>
  The resume text is a Python \<open>str\<close>. It is modelled as a \<open>string\<close> whose characters
  are the code points below 256; the classes below are Python's \<open>str.isspace\<close>,
  the \<open>re\<close> classes \<open>\s\<close>, \<open>\d\<close>, \<open>\w\<close> and the case folding of \<open>re.IGNORECASE\<close>,
  each restricted to that range.
\<close>

definition ord :: "char \<Rightarrow> nat" where
  "ord c = of_char c"

definition is_space :: "char \<Rightarrow> bool" where
  "is_space c = (let n = ord c in
     (9 \<le> n \<and> n \<le> 13) \<or> (28 \<le> n \<and> n \<le> 32) \<or> n = 133 \<or> n = 160)"

definition is_digit :: "char \<Rightarrow> bool" where
  "is_digit c = (let n = ord c in 48 \<le> n \<and> n \<le> 57)"

definition is_upper :: "char \<Rightarrow> bool" where
  "is_upper c = (let n = ord c in 65 \<le> n \<and> n \<le> 90)"

definition is_lower :: "char \<Rightarrow> bool" where
  "is_lower c = (let n = ord c in 97 \<le> n \<and> n \<le> 122)"

definition is_word :: "char \<Rightarrow> bool" where
  "is_word c = (let n = ord c in
     is_digit c \<or> is_upper c \<or> is_lower c \<or> n = 95 \<or>
     n = 170 \<or> n = 178 \<or> n = 179 \<or> n = 181 \<or> n = 185 \<or> n = 186 \<or>
     (188 \<le> n \<and> n \<le> 190) \<or> (192 \<le> n \<and> n \<le> 214) \<or>
     (216 \<le> n \<and> n \<le> 246) \<or> (248 \<le> n \<and> n \<le> 255))"

definition lower_char :: "char \<Rightarrow> char" where
  "lower_char c = (if is_upper c then char_of (ord c + 32) else c)"

definition upper_char :: "char \<Rightarrow> char" where
  "upper_char c = (if is_lower c then char_of (ord c - 32) else c)"

section \<open>The regular expressions of the \<open>re\<close> module\<close>

text \<open>
  A pattern is a syntax tree. \<open>Rep greedy m mx r\<close> is the repetition \<open>r{m,mx}\<close>
  (\<open>mx = None\<close>: unbounded), greedy or lazy; \<open>Grp n r\<close> is the capturing group
  number \<open>n\<close>; \<open>WordB\<close> is \<open>\b\<close> and \<open>Eos\<close> is \<open>$\<close> without \<open>re.MULTILINE\<close>.
\<close>

datatype regex =
    Eps
  | Lit char
  | Cls "char \<Rightarrow> bool"
  | Dot
  | WordB
  | Eos
  | Seq regex regex
  | Alt regex regex
  | Rep bool nat "nat option" regex
  | Grp nat regex

record flags =
  ignorecase :: bool
  dotall :: bool

text \<open>
  A matcher state: the character before the current position (for \<open>\b\<close>), the
  text still to read, and the groups captured so far, the latest first.
\<close>

record mstate =
  prev :: "char option"
  rest :: string
  caps :: "(nat \<times> string) list"

definition advance :: "mstate \<Rightarrow> mstate" where
  "advance s = (case rest s of [] \<Rightarrow> s | x # xs \<Rightarrow> s\<lparr>prev := Some x, rest := xs\<rparr>)"

definition word_at :: "char option \<Rightarrow> bool" where
  "word_at p = (case p of None \<Rightarrow> False | Some c \<Rightarrow> is_word c)"

definition at_boundary :: "mstate \<Rightarrow> bool" where
  "at_boundary s = (word_at (prev s) \<noteq> word_at (case rest s of [] \<Rightarrow> None | x # _ \<Rightarrow> Some x))"

definition at_end :: "mstate \<Rightarrow> bool" where
  "at_end s = (rest s = [] \<or> rest s = [CHR 0x0A])"

definition lit_ok :: "flags \<Rightarrow> char \<Rightarrow> char \<Rightarrow> bool" where
  "lit_ok fl c x = (if ignorecase fl then lower_char x = lower_char c else x = c)"

definition cls_ok :: "flags \<Rightarrow> (char \<Rightarrow> bool) \<Rightarrow> char \<Rightarrow> bool" where
  "cls_ok fl p x = (p x \<or> (ignorecase fl \<and> (p (lower_char x) \<or> p (upper_char x))))"

definition dot_ok :: "flags \<Rightarrow> char \<Rightarrow> bool" where
  "dot_ok fl x = (dotall fl \<or> x \<noteq> CHR 0x0A)"

definition one_char :: "(char \<Rightarrow> bool) \<Rightarrow> mstate \<Rightarrow> mstate list" where
  "one_char ok s = (case rest s of [] \<Rightarrow> [] | x # _ \<Rightarrow> if ok x then [advance s] else [])"

definition close_group :: "nat \<Rightarrow> mstate \<Rightarrow> mstate \<Rightarrow> mstate" where
  "close_group n s s' =
     s'\<lparr>caps := (n, take (length (rest s) - length (rest s')) (rest s)) # caps s'\<rparr>"

definition dec :: "nat option \<Rightarrow> nat option" where
  "dec mx = map_option (\<lambda>k. k - 1) mx"

fun rsize :: "regex \<Rightarrow> nat" where
  "rsize (Seq a b) = Suc (rsize a + rsize b)"
| "rsize (Alt a b) = Suc (rsize a + rsize b)"
| "rsize (Rep g m mx r) = Suc (rsize r + m + (case mx of None \<Rightarrow> 0 | Some k \<Rightarrow> k))"
| "rsize (Grp n r) = Suc (rsize r)"
| "rsize _ = 0"

text \<open>
  The backtracking matcher of \<open>re\<close>, as the list of all the ways the pattern can match
  at the current position, in the order in which backtracking tries them: the head of
  the list is the match that \<open>re\<close> reports. A greedy repetition tries one more
  iteration before it tries to stop, a lazy one tries to stop first; an optional
  iteration that consumed nothing is not repeated.
\<close>

function run :: "flags \<Rightarrow> regex \<Rightarrow> mstate \<Rightarrow> mstate list" where
  "run fl Eps s = [s]"
| "run fl (Lit c) s = one_char (lit_ok fl c) s"
| "run fl (Cls p) s = one_char (cls_ok fl p) s"
| "run fl Dot s = one_char (dot_ok fl) s"
| "run fl WordB s = (if at_boundary s then [s] else [])"
| "run fl Eos s = (if at_end s then [s] else [])"
| "run fl (Seq a b) s = concat (map (run fl b) (run fl a s))"
| "run fl (Alt a b) s = run fl a s @ run fl b s"
| "run fl (Grp n r) s = map (close_group n s) (run fl r s)"
| "run fl (Rep g m mx r) s =
     (if 0 < m then concat (map (run fl (Rep g (m - 1) (dec mx) r)) (run fl r s))
      else if mx = Some 0 then [s]
      else
        let more = concat (map (\<lambda>s'. if length (rest s') < length (rest s)
                                       then run fl (Rep g 0 (dec mx) r) s' else [])
                               (run fl r s))
        in if g then more @ [s] else s # more)"
  by pat_completeness auto
termination
  by (relation "inv_image (measure rsize <*lex*> measure (\<lambda>s. length (rest s))) (\<lambda>(fl, r, s). (r, s))")
     (auto simp: dec_def split: option.splits)

definition seqs :: "regex list \<Rightarrow> regex" where
  "seqs rs = foldr Seq rs Eps"

definition lits :: "string \<Rightarrow> regex" where
  "lits w = seqs (map Lit w)"

definition start_state :: "char option \<Rightarrow> string \<Rightarrow> mstate" where
  "start_state p t = \<lparr>prev = p, rest = t, caps = []\<rparr>"

text \<open>
  A match object: the text skipped before the match, the matched text and the groups.
  \<open>group m n\<close> is \<open>m.group(n)\<close> for \<open>n > 0\<close>: \<open>None\<close> when the group took no part.
\<close>

record rmatch =
  skipped :: string
  matched :: string
  groups :: "(nat \<times> string) list"

definition group :: "rmatch \<Rightarrow> nat \<Rightarrow> string option" where
  "group m n = map_of (groups m) n"

definition match_here :: "flags \<Rightarrow> regex \<Rightarrow> char option \<Rightarrow> string \<Rightarrow> rmatch option" where
  "match_here fl r p t =
     (case run fl r (start_state p t) of
        [] \<Rightarrow> None
      | s # _ \<Rightarrow> Some \<lparr>skipped = [], matched = take (length t - length (rest s)) t,
                         groups = caps s\<rparr>)"

text \<open>\<open>re.search\<close>: the match at the leftmost position where the pattern matches.\<close>

fun search_from :: "flags \<Rightarrow> regex \<Rightarrow> char option \<Rightarrow> string \<Rightarrow> rmatch option" where
  "search_from fl r p [] = match_here fl r p []"
| "search_from fl r p (c # cs) =
     (case match_here fl r p (c # cs) of
        Some m \<Rightarrow> Some m
      | None \<Rightarrow> map_option (\<lambda>m. m\<lparr>skipped := c # skipped m\<rparr>) (search_from fl r (Some c) cs))"

definition search :: "flags \<Rightarrow> regex \<Rightarrow> string \<Rightarrow> rmatch option" where
  "search fl r t = search_from fl r None t"

text \<open>
  The scan that \<open>re.findall\<close> and \<open>re.sub\<close> share: the text cut into the characters
  that no match covers and the successive non-overlapping matches, left to right. The
  counter is the number of characters of the last match still to skip. (After an empty
  match the scan moves one character on; the two patterns scanned below cannot match
  the empty string.)
\<close>

datatype tok = Keep char | Hit rmatch

fun scan :: "flags \<Rightarrow> regex \<Rightarrow> nat \<Rightarrow> char option \<Rightarrow> string \<Rightarrow> tok list" where
  "scan fl r k p [] =
     (if 0 < k then []
      else case match_here fl r p [] of None \<Rightarrow> [] | Some m \<Rightarrow> [Hit m])"
| "scan fl r k p (c # cs) =
     (if 0 < k then scan fl r (k - 1) (Some c) cs
      else case match_here fl r p (c # cs) of
             None \<Rightarrow> Keep c # scan fl r 0 (Some c) cs
           | Some m \<Rightarrow>
               if matched m = [] then Hit m # Keep c # scan fl r 0 (Some c) cs
               else Hit m # scan fl r (length (matched m) - 1) (Some c) cs)"

definition hits :: "tok list \<Rightarrow> rmatch list" where
  "hits ts = concat (map (\<lambda>t. case t of Keep c \<Rightarrow> [] | Hit m \<Rightarrow> [m]) ts)"

definition finditer :: "flags \<Rightarrow> regex \<Rightarrow> string \<Rightarrow> rmatch list" where
  "finditer fl r t = hits (scan fl r 0 None t)"

text \<open>\<open>re.findall\<close> for a pattern without groups: the matched strings.\<close>

definition findall0 :: "flags \<Rightarrow> regex \<Rightarrow> string \<Rightarrow> string list" where
  "findall0 fl r t = map matched (finditer fl r t)"

text \<open>
  \<open>re.findall\<close> for a pattern with two groups: the pairs of the groups' strings, the
  empty string for a group that took no part.
\<close>

definition group_or_empty :: "rmatch \<Rightarrow> nat \<Rightarrow> string" where
  "group_or_empty m n = (case group m n of None \<Rightarrow> [] | Some g \<Rightarrow> g)"

definition findall2 :: "flags \<Rightarrow> regex \<Rightarrow> string \<Rightarrow> (string \<times> string) list" where
  "findall2 fl r t = map (\<lambda>m. (group_or_empty m 1, group_or_empty m 2)) (finditer fl r t)"

text \<open>\<open>re.sub\<close> with a replacement string that has no escapes.\<close>

definition sub :: "flags \<Rightarrow> regex \<Rightarrow> string \<Rightarrow> string \<Rightarrow> string" where
  "sub fl r repl t =
     concat (map (\<lambda>k. case k of Keep c \<Rightarrow> [c] | Hit m \<Rightarrow> repl) (scan fl r 0 None t))"

section \<open>String methods\<close>

text \<open>\<open>str.strip()\<close>, \<open>str.split(sep)\<close> for a one-character separator, \<open>str.replace\<close>.\<close>

definition strip :: "string \<Rightarrow> string" where
  "strip s = rev (dropWhile is_space (rev (dropWhile is_space s)))"

fun split :: "char \<Rightarrow> string \<Rightarrow> string list" where
  "split sep [] = [[]]"
| "split sep (x # xs) =
     (if x = sep then [] # split sep xs
      else case split sep xs of [] \<Rightarrow> [[x]] | h # t \<Rightarrow> (x # h) # t)"

fun replace_from :: "string \<Rightarrow> string \<Rightarrow> string \<Rightarrow> string" where
  "replace_from old new [] = []"
| "replace_from old new (c # cs) =
     (if prefix old (c # cs) then new @ replace_from old new (drop (length old - 1) cs)
      else c # replace_from old new cs)"

definition replace :: "string \<Rightarrow> string \<Rightarrow> string \<Rightarrow> string" where
  "replace t old new =
     (if old = [] then new @ concat (map (\<lambda>c. c # new) t) else replace_from old new t)"

section \<open>Dictionaries and values\<close>

text \<open>
  A Python \<open>dict\<close> with string keys, in insertion order: assigning to a key that is
  present replaces its value in place, a new key goes to the end.
\<close>

type_synonym 'v dict = "(string \<times> 'v) list"

fun dict_set :: "string \<Rightarrow> 'v \<Rightarrow> 'v dict \<Rightarrow> 'v dict" where
  "dict_set k v [] = [(k, v)]"
| "dict_set k v ((k', v') # d) =
     (if k' = k then (k, v) # d else (k', v') # dict_set k v d)"

definition dict_get :: "'v dict \<Rightarrow> string \<Rightarrow> 'v option" where
  "dict_get d k = map_of d k"

definition dict_merge :: "'v dict \<Rightarrow> 'v dict \<Rightarrow> 'v dict" where
  "dict_merge d e = foldl (\<lambda>acc (k, v). dict_set k v acc) d e"

definition keys :: "'v dict \<Rightarrow> string list" where
  "keys d = map fst d"

datatype pyval = PNone | PStr string | PList "string list"

section \<open>Section extraction (\<open>extract_info\<close>)\<close>

definition section_flags :: flags where
  "section_flags = \<lparr>ignorecase = True, dotall = True\<rparr>"

definition colon_or_space :: "char \<Rightarrow> bool" where
  "colon_or_space c = (c = CHR '':'' \<or> is_space c)"

definition newline :: char where
  "newline = CHR 0x0A"

text \<open>\<open>r"Skills?[:\s]*(.*?)(\n|$)"\<close>\<close>

definition skills_pattern :: regex where
  "skills_pattern = seqs
     [lits ''Skill'', Rep True 0 (Some 1) (Lit CHR ''s''),
      Rep True 0 None (Cls colon_or_space),
      Grp 1 (Rep False 0 None Dot),
      Grp 2 (Alt (Lit newline) Eos)]"

text \<open>\<open>r"Education[:\s]*(.*?)(\n\n|$)"\<close>\<close>

definition education_pattern :: regex where
  "education_pattern = seqs
     [lits ''Education'',
      Rep True 0 None (Cls colon_or_space),
      Grp 1 (Rep False 0 None Dot),
      Grp 2 (Alt (lits [newline, newline]) Eos)]"

text \<open>
  \<open>r"Experience|Work History[:\s]*(.*?)(\n\n|$)"\<close>: the alternation binds weakest, so
  the first branch is the bare word and the groups belong to the second branch.
\<close>

definition experience_pattern :: regex where
  "experience_pattern = Alt
     (lits ''Experience'')
     (seqs
       [lits ''Work History'',
        Rep True 0 None (Cls colon_or_space),
        Grp 1 (Rep False 0 None Dot),
        Grp 2 (Alt (lits [newline, newline]) Eos)])"

text \<open>\<open>r"Certifications[:\s]*(.*?)(\n\n|$)"\<close>\<close>

definition certifications_pattern :: regex where
  "certifications_pattern = seqs
     [lits ''Certifications'',
      Rep True 0 None (Cls colon_or_space),
      Grp 1 (Rep False 0 None Dot),
      Grp 2 (Alt (lits [newline, newline]) Eos)]"

text \<open>
  \<open>[x.strip() for x in raw.split(sep) if x.strip()]\<close> with \<open>raw\<close> the stripped group.
\<close>

definition items :: "char \<Rightarrow> string \<Rightarrow> string list" where
  "items sep g = filter (\<lambda>x. x \<noteq> []) (map strip (split sep (strip g)))"

text \<open>
  One section of \<open>extract_info\<close>: \<open>if m and m.group(1):\<close> holds when there is a match
  whose first group took part and is not empty; only then is the key assigned.
\<close>

definition extract_section ::
  "regex \<Rightarrow> char \<Rightarrow> string \<Rightarrow> string \<Rightarrow> string list dict \<Rightarrow> string list dict" where
  "extract_section pat sep key text extracted_data =
     (case search section_flags pat text of
        None \<Rightarrow> extracted_data
      | Some m \<Rightarrow>
          (case group m 1 of
             None \<Rightarrow> extracted_data
           | Some g \<Rightarrow>
               if g = [] then extracted_data
               else dict_set key (items sep g) extracted_data))"

definition extract_info :: "string \<Rightarrow> string list dict" where
  "extract_info text =
     (let extracted_data =
            [(''skills'', []), (''education'', []), (''experience'', []),
             (''certifications'', [])];
          extracted_data =
            extract_section skills_pattern (CHR '','') ''skills'' text extracted_data;
          extracted_data =
            extract_section education_pattern newline ''education'' text extracted_data;
          extracted_data =
            extract_section experience_pattern newline ''experience'' text extracted_data;
          extracted_data =
            extract_section certifications_pattern newline ''certifications'' text
              extracted_data
      in extracted_data)"

section \<open>Redaction (\<open>anonymize_data\<close>)\<close>

definition plain_flags :: flags where
  "plain_flags = \<lparr>ignorecase = False, dotall = False\<rparr>"

definition is_alnum_ascii :: "char \<Rightarrow> bool" where
  "is_alnum_ascii c = (is_upper c \<or> is_lower c \<or> is_digit c)"

text \<open>\<open>r"\b[A-Za-z0-9._%+-]+@[A-Za-z0-9.-]+\.[A-Z|a-z]{2,}\b"\<close>\<close>

definition email_local :: "char \<Rightarrow> bool" where
  "email_local c = (is_alnum_ascii c \<or> c \<in> set ''._%+-'')"

definition email_domain :: "char \<Rightarrow> bool" where
  "email_domain c = (is_alnum_ascii c \<or> c \<in> set ''.-'')"

definition email_tld :: "char \<Rightarrow> bool" where
  "email_tld c = (is_upper c \<or> c = CHR ''|'' \<or> is_lower c)"

definition email_pattern :: regex where
  "email_pattern = seqs
     [WordB, Rep True 1 None (Cls email_local), Lit CHR ''@'',
      Rep True 1 None (Cls email_domain), Lit CHR ''.'',
      Rep True 2 None (Cls email_tld), WordB]"

text \<open>
  \<open>r"\b(\+?\d{1,3}[-.\s]??)?(\(?\d{3}\)?[-.\s]??\d{3}[-.\s]??\d{4}|\d{10})\b"\<close>
\<close>

definition phone_sep :: "char \<Rightarrow> bool" where
  "phone_sep c = (c = CHR ''-'' \<or> c = CHR ''.'' \<or> is_space c)"

definition phone_pattern :: regex where
  "phone_pattern = seqs
     [WordB,
      Rep True 0 (Some 1)
        (Grp 1 (seqs [Rep True 0 (Some 1) (Lit CHR ''+''), Rep True 1 (Some 3) (Cls is_digit),
                      Rep False 0 (Some 1) (Cls phone_sep)])),
      Grp 2
        (Alt
          (seqs [Rep True 0 (Some 1) (Lit CHR ''(''), Rep True 3 (Some 3) (Cls is_digit),
                 Rep True 0 (Some 1) (Lit CHR '')''), Rep False 0 (Some 1) (Cls phone_sep),
                 Rep True 3 (Some 3) (Cls is_digit), Rep False 0 (Some 1) (Cls phone_sep),
                 Rep True 4 (Some 4) (Cls is_digit)])
          (Rep True 10 (Some 10) (Cls is_digit))),
      WordB]"

definition email_placeholder :: string where
  "email_placeholder = ''***@***.com''"

definition phone_placeholder :: string where
  "phone_placeholder = ''XXX-XXX-XXXX''"

definition name_placeholder :: string where
  "name_placeholder = ''[CANDIDATE NAME]''"

definition address_placeholder :: string where
  "address_placeholder = ''[ADDRESS]''"

text \<open>
  An entity of \<open>doc.ents\<close>: its \<open>text\<close> and its \<open>label_\<close>. The tagger \<open>nlp\<close> is the
  spaCy model, a collaborator outside the program: a call takes the text and the
  state of the collaborator, and gives either the exception it raised or the entities
  in document order, and the collaborator's next state.
\<close>

record ent =
  ent_text :: string
  ent_label :: string

type_synonym ('e, 's) tagger = "string \<Rightarrow> 's \<Rightarrow> ('e + ent list) \<times> 's"

text \<open>The address loop: each address in turn is replaced in the current text.\<close>

fun replace_addresses :: "string \<Rightarrow> string list \<Rightarrow> string" where
  "replace_addresses t [] = t"
| "replace_addresses t (a # as) = replace_addresses (replace t a address_placeholder) as"

definition anonymize_data ::
  "('e, 's) tagger \<Rightarrow> string \<Rightarrow> 's \<Rightarrow> ('e + string \<times> pyval dict) \<times> 's" where
  "anonymize_data nlp txt st =
     (let anonymized_info =
            [(''masked_emails'', PList []), (''masked_phones'', PList []),
             (''masked_addresses'', PList [])];
          emails = findall0 plain_flags email_pattern txt;
          anonymized_info = dict_set ''masked_emails'' (PList emails) anonymized_info;
          anonymized_text = sub plain_flags email_pattern email_placeholder txt;
          phones = findall2 plain_flags phone_pattern anonymized_text;
          phones_flat = map snd (filter (\<lambda>p. snd p \<noteq> []) phones);
          anonymized_info = dict_set ''masked_phones'' (PList phones_flat) anonymized_info;
          anonymized_text = sub plain_flags phone_pattern phone_placeholder anonymized_text
      in case nlp anonymized_text st of
           (Inl e, st') \<Rightarrow> (Inl e, st')
         | (Inr ents, st') \<Rightarrow>
             (let names = map ent_text (filter (\<lambda>en. ent_label en = ''PERSON'') ents);
                  (anonymized_text, anonymized_info) =
                    (case names of
                       [] \<Rightarrow> (anonymized_text, anonymized_info)
                     | candidate_name # _ \<Rightarrow>
                         (replace anonymized_text candidate_name name_placeholder,
                          dict_set ''masked_name'' (PStr candidate_name) anonymized_info));
                  addresses =
                    map ent_text (filter (\<lambda>en. ent_label en \<in> set [''GPE'', ''LOC'']) ents);
                  anonymized_text = replace_addresses anonymized_text addresses;
                  anonymized_info =
                    dict_set ''masked_addresses'' (PList addresses) anonymized_info
              in (Inr (anonymized_text, anonymized_info), st')))"

section \<open>The pipeline (\<open>process_resume\<close>)\<close>

definition output_schema_template :: "string dict" where
  "output_schema_template =
     [(''Skill_Set'', ''skills''),
      (''Experience_Summary'', ''experience''),
      (''Anonymized_Resume_Text'', ''anonymized_resume_text''),
      (''Certifications_List'', ''certifications''),
      (''Education_Records'', ''education'')]"

text \<open>
  The three text extractors read a file with an external library and return the empty
  string on any failure; they are the parameters \<open>pdf\<close>, \<open>docx\<close> and \<open>image\<close>.
\<close>

record 'p extractors =
  extract_text_from_pdf :: "'p \<Rightarrow> string"
  extract_text_from_docx :: "'p \<Rightarrow> string"
  extract_text_from_image :: "'p \<Rightarrow> string"

definition read_text :: "'p extractors \<Rightarrow> 'p \<Rightarrow> string \<Rightarrow> string" where
  "read_text ex file_path content_type =
     (if content_type = ''application/pdf'' then extract_text_from_pdf ex file_path
      else if content_type =
                ''application/vnd.openxmlformats-officedocument.wordprocessingml.document''
      then extract_text_from_docx ex file_path
      else if content_type \<in> set [''image/jpeg'', ''image/png'']
      then extract_text_from_image ex file_path
      else [])"

text \<open>
  \<open>combined_data.get(value_key, None)\<close>. (The values of the template are strings, so
  the branch for a list of sub-keys is never taken.)
\<close>

definition get_or_none :: "pyval dict \<Rightarrow> string \<Rightarrow> pyval" where
  "get_or_none d k = (case dict_get d k of None \<Rightarrow> PNone | Some v \<Rightarrow> v)"

definition process_resume ::
  "('e, 's) tagger \<Rightarrow> 'p extractors \<Rightarrow> 'p \<Rightarrow> string \<Rightarrow> 's \<Rightarrow> ('e + pyval dict) \<times> 's" where
  "process_resume nlp ex file_path content_type st =
     (let txt = read_text ex file_path content_type
      in case anonymize_data nlp txt st of
           (Inl e, st') \<Rightarrow> (Inl e, st')
         | (Inr (anonymized_text, anonymized_info), st') \<Rightarrow>
             (let extracted_info = extract_info anonymized_text;
                  combined_data =
                    dict_merge
                      (dict_merge [(''anonymized_resume_text'', PStr anonymized_text)]
                         (map (\<lambda>(k, v). (k, PList v)) extracted_info))
                      anonymized_info;
                  final_output =
                    foldl (\<lambda>acc (key, value_key).
                             dict_set key (get_or_none combined_data value_key) acc)
                          [] output_schema_template
              in (Inr final_output, st')))"

section \<open>Vocabulary of the specification\<close>

text \<open>
  Names for the intermediate results of \<open>anonymize_data\<close>, each the expression the
  code computes: the recorded emails, the text after the email pass, the recorded
  phones, the text after the phone pass, the entities selected and the entity pass.
\<close>

definition found_emails :: "string \<Rightarrow> string list" where
  "found_emails t = findall0 plain_flags email_pattern t"

definition redact_emails :: "string \<Rightarrow> string" where
  "redact_emails t = sub plain_flags email_pattern email_placeholder t"

definition found_phones :: "string \<Rightarrow> string list" where
  "found_phones t = map snd (filter (\<lambda>p. snd p \<noteq> []) (findall2 plain_flags phone_pattern t))"

definition redact_phones :: "string \<Rightarrow> string" where
  "redact_phones t = sub plain_flags phone_pattern phone_placeholder t"

definition post_phone :: "string \<Rightarrow> string" where
  "post_phone t = redact_phones (redact_emails t)"

definition person_names :: "ent list \<Rightarrow> string list" where
  "person_names ents = map ent_text (filter (\<lambda>en. ent_label en = ''PERSON'') ents)"

definition location_names :: "ent list \<Rightarrow> string list" where
  "location_names ents =
     map ent_text (filter (\<lambda>en. ent_label en \<in> set [''GPE'', ''LOC'']) ents)"

definition redact_name :: "string list \<Rightarrow> string \<Rightarrow> string" where
  "redact_name names t = (case names of [] \<Rightarrow> t | n # _ \<Rightarrow> replace t n name_placeholder)"

definition audit_record ::
  "string list \<Rightarrow> string list \<Rightarrow> string list \<Rightarrow> string list \<Rightarrow> pyval dict" where
  "audit_record emails phones names addresses =
     [(''masked_emails'', PList emails), (''masked_phones'', PList phones),
      (''masked_addresses'', PList addresses)] @
     (case names of [] \<Rightarrow> [] | n # _ \<Rightarrow> [(''masked_name'', PStr n)])"

text \<open>
  \<open>join sep ps\<close> is \<open>sep.join(ps)\<close>. \<open>pieces old t\<close> is the text that \<open>t.replace(old, new)\<close>
  keeps, cut at the places where it puts \<open>new\<close>.
\<close>

fun join :: "string \<Rightarrow> string list \<Rightarrow> string" where
  "join sep [] = []"
| "join sep [p] = p"
| "join sep (p # q # ps) = p @ sep @ join sep (q # ps)"

fun pieces_from :: "string \<Rightarrow> string \<Rightarrow> string list" where
  "pieces_from old [] = [[]]"
| "pieces_from old (c # cs) =
     (if prefix old (c # cs) then [] # pieces_from old (drop (length old - 1) cs)
      else case pieces_from old cs of [] \<Rightarrow> [[c]] | p # ps \<Rightarrow> (c # p) # ps)"

definition pieces :: "string \<Rightarrow> string \<Rightarrow> string list" where
  "pieces old t = (if old = [] then [] # map (\<lambda>c. [c]) t @ [[]] else pieces_from old t)"

definition section_list :: "string list dict \<Rightarrow> string \<Rightarrow> string list" where
  "section_list d k = (case dict_get d k of None \<Rightarrow> [] | Some l \<Rightarrow> l)"

section \<open>Well-formed items and example inputs\<close>

text \<open>An item of a section list as the extraction leaves it.\<close>

definition clean_item :: "string \<Rightarrow> bool" where
  "clean_item x = (x \<noteq> [] \<and> \<not> is_space (hd x) \<and> \<not> is_space (last x))"

text \<open>
  Taggers for the examples: one that finds nothing and counts its calls, one that
  raises, one that reports two persons and a place and logs the texts it is called
  with, and one that reports a person whose name is part of the name placeholder.
\<close>

definition silent_tagger :: "(string, nat) tagger" where
  "silent_tagger t calls = (Inr [], Suc calls)"

definition failing_tagger :: "(string, nat) tagger" where
  "failing_tagger t calls = (Inl ''TaggerUnavailable'', Suc calls)"

definition jane_tagger :: "(string, string list) tagger" where
  "jane_tagger t log =
     (Inr [\<lparr>ent_text = ''Jane Doe'', ent_label = ''PERSON''\<rparr>,
           \<lparr>ent_text = ''Paris'', ent_label = ''GPE''\<rparr>,
           \<lparr>ent_text = ''John Roe'', ent_label = ''PERSON''\<rparr>], log @ [t])"

definition an_tagger :: "(string, nat) tagger" where
  "an_tagger t calls = (Inr [\<lparr>ent_text = ''AN'', ent_label = ''PERSON''\<rparr>], Suc calls)"

definition scenario1 :: string where
  "scenario1 = ''Contact: jane@example.com or 555-123-4567. Skills: Python, SQL, Go''"

definition scenario1_anonymized :: string where
  "scenario1_anonymized = ''Contact: ***@***.com or XXX-XXX-XXXX. Skills: Python, SQL, Go''"

definition scenario2 :: string where
  "scenario2 = ''Education:\<newline>BSc Computer Science, MIT\<newline>\<newline>Experience:\<newline>Acme Corp\<newline>Engineer''"

definition scenario3 :: string where
  "scenario3 = ''Jane Doe j@d.io 5551234567 Paris. Jane Doe and John Roe''"

definition pdf_of :: "string \<Rightarrow> unit extractors" where
  "pdf_of t = \<lparr>extract_text_from_pdf = (\<lambda>_. t), extract_text_from_docx = (\<lambda>_. []),
              extract_text_from_image = (\<lambda>_. [])\<rparr>"

definition leak_email :: string where "leak_email = ''a@b.cc_ a@b.cc''"
definition leak_phone :: string where "leak_phone = ''a5551234567 5551234567''"

text \<open>A phone number behind a country-code prefix, for the phone matcher's groups.\<close>

definition prefixed_phone :: string where
  "prefixed_phone = ''call 1 555-123-4567 now''"

section \<open>Dictionaries\<close>

lemma dict_get_set: "dict_get (dict_set k v d) k' = (if k' = k then Some v else dict_get d k')"
  by (induction d) (auto simp: dict_get_def)

lemma keys_simps [simp]: "keys [] = []" "keys ((k, v) # d) = k # keys d"
  by (simp_all add: keys_def)

lemma keys_dict_set: "keys (dict_set k v d) = (if k \<in> set (keys d) then keys d else keys d @ [k])"
  by (induction d) (auto split: if_splits)

lemma set_dict_set: "set (dict_set k v d) \<subseteq> insert (k, v) (set d)"
  by (induction d) (auto split: if_splits)

lemma keys_dict_merge_subset: "set (keys (dict_merge d e)) = set (keys d) \<union> set (keys e)"
proof (induction e arbitrary: d)
  case Nil
  then show ?case by (simp add: dict_merge_def)
next
  case (Cons a e)
  obtain k v where a: "a = (k, v)" by (cases a)
  have "dict_merge d (a # e) = dict_merge (dict_set k v d) e"
    by (simp add: dict_merge_def a)
  then show ?case
    using Cons.IH [of "dict_set k v d"] by (auto simp: keys_dict_set a)
qed

lemma dict_get_merge_other:
  "k \<notin> set (keys e) \<Longrightarrow> dict_get (dict_merge d e) k = dict_get d k"
proof (induction e arbitrary: d)
  case Nil
  then show ?case by (simp add: dict_merge_def)
next
  case (Cons a e)
  obtain k' v where a: "a = (k', v)" by (cases a)
  have m: "dict_merge d (a # e) = dict_merge (dict_set k' v d) e"
    by (simp add: dict_merge_def a)
  from Cons.prems have "k \<noteq> k'" and "k \<notin> set (keys e)"
    by (auto simp: a)
  then show ?case
    using Cons.IH [of "dict_set k' v d"] by (simp add: m dict_get_set)
qed

section \<open>The structure of \<open>anonymize_data\<close>\<close>

lemma anonymize_data_unfold:
  "anonymize_data nlp txt st =
     (case nlp (post_phone txt) st of
        (Inl e, st') \<Rightarrow> (Inl e, st')
      | (Inr ents, st') \<Rightarrow>
          (Inr (replace_addresses (redact_name (person_names ents) (post_phone txt))
                  (location_names ents),
                audit_record (found_emails txt) (found_phones (redact_emails txt))
                  (person_names ents) (location_names ents)),
           st'))"
  by (simp add: anonymize_data_def Let_def post_phone_def redact_phones_def redact_emails_def
      found_emails_def found_phones_def person_names_def location_names_def redact_name_def
      audit_record_def split: prod.splits sum.splits list.splits)


section \<open>Stripped items\<close>

lemma last_dropWhile: "dropWhile P xs \<noteq> [] \<Longrightarrow> last (dropWhile P xs) = last xs"
  by (induction xs) (auto split: if_splits)

lemma strip_ends:
  assumes "strip s \<noteq> []"
  shows "\<not> is_space (hd (strip s))" and "\<not> is_space (last (strip s))"
proof -
  define u where "u = dropWhile is_space s"
  define v where "v = dropWhile is_space (rev u)"
  have sv: "strip s = rev v" by (simp add: strip_def u_def v_def)
  with assms have v: "v \<noteq> []" by simp
  then have u: "u \<noteq> []" by (auto simp: v_def)
  have "\<not> is_space (hd v)" using v unfolding v_def by (rule hd_dropWhile)
  then show "\<not> is_space (last (strip s))" using v by (simp add: sv last_rev)
  have "last v = last (rev u)" using v unfolding v_def by (rule last_dropWhile)
  also have "\<dots> = hd u" using u by (simp add: last_rev)
  finally have "hd (strip s) = hd u" using v by (simp add: sv hd_rev)
  moreover have "\<not> is_space (hd u)" using u unfolding u_def by (rule hd_dropWhile)
  ultimately show "\<not> is_space (hd (strip s))" by simp
qed

lemma items_clean: "x \<in> set (items sep g) \<Longrightarrow> clean_item x"
  by (auto simp: items_def clean_item_def strip_ends)

lemma extract_section_cases:
  "extract_section pat sep key t d = d \<or>
   (\<exists>g. extract_section pat sep key t d = dict_set key (items sep g) d)"
  by (auto simp: extract_section_def split: option.splits)

lemma extract_section_clean:
  assumes "\<forall>(k, l) \<in> set d. \<forall>x \<in> set l. clean_item x"
  shows "\<forall>(k, l) \<in> set (extract_section pat sep key t d). \<forall>x \<in> set l. clean_item x"
proof -
  consider "extract_section pat sep key t d = d"
    | g where "extract_section pat sep key t d = dict_set key (items sep g) d"
    using extract_section_cases by blast
  then show ?thesis
  proof cases
    case 1
    with assms show ?thesis by simp
  next
    case 2
    have "set (dict_set key (items sep g) d) \<subseteq> insert (key, items sep g) (set d)"
      by (rule set_dict_set)
    with assms 2 show ?thesis by (auto dest: items_clean)
  qed
qed

lemma extract_section_keys:
  "key \<in> set (keys d) \<Longrightarrow> keys (extract_section pat sep key t d) = keys d"
  using extract_section_cases [of pat sep key t d] by (auto simp: keys_dict_set)

lemma extract_info_keys:
  "keys (extract_info t) = [''skills'', ''education'', ''experience'', ''certifications'']"
  by (simp add: extract_info_def Let_def extract_section_keys)

lemma extract_info_clean:
  "\<forall>(k, l) \<in> set (extract_info t). \<forall>x \<in> set l. clean_item x"
  unfolding extract_info_def Let_def
  by (intro extract_section_clean) simp

text \<open>
  C10: section extraction returns a dictionary with exactly the four keys skills,
  education, experience and certifications, and every item of every list is a
  non-empty string that neither starts nor ends with whitespace.
\<close>

theorem C10_sections_wellformed:
  "keys (extract_info t) = [''skills'', ''education'', ''experience'', ''certifications''] \<and>
   (\<forall>(k, l) \<in> set (extract_info t). \<forall>x \<in> set l.
      x \<noteq> [] \<and> \<not> is_space (hd x) \<and> \<not> is_space (last x))"
  using extract_info_keys [of t] extract_info_clean [of t]
  by (simp add: clean_item_def case_prod_unfold)


section \<open>Scanning without a match\<close>

lemma scan_no_hit:
  "hits (scan fl r 0 p t) = [] \<Longrightarrow>
   concat (map (\<lambda>k. case k of Keep c \<Rightarrow> [c] | Hit m \<Rightarrow> repl) (scan fl r 0 p t)) = t"
proof (induction t arbitrary: p)
  case Nil
  then show ?case by (auto simp: hits_def split: option.splits)
next
  case (Cons c cs)
  show ?case
  proof (cases "match_here fl r p (c # cs)")
    case None
    with Cons.prems have "hits (scan fl r 0 (Some c) cs) = []" by (simp add: hits_def)
    with Cons.IH [of "Some c"] None show ?thesis by simp
  next
    case (Some m)
    with Cons.prems show ?thesis by (simp add: hits_def split: if_splits)
  qed
qed

lemma sub_no_match: "finditer fl r t = [] \<Longrightarrow> sub fl r repl t = t"
  by (simp add: finditer_def sub_def scan_no_hit)

lemma no_emails: "findall0 plain_flags email_pattern t = [] \<Longrightarrow> redact_emails t = t"
  by (simp add: findall0_def redact_emails_def sub_no_match)

lemma no_phones:
  assumes "findall2 plain_flags phone_pattern t = []"
  shows "redact_phones t = t" and "found_phones t = []"
  using assms by (simp_all add: findall2_def redact_phones_def found_phones_def sub_no_match)

text \<open>
  C8: for a text in which the email pattern and the phone pattern find nothing and
  for which the tagger returns no entity, the returned text is the input text and the
  audit record holds an empty list for emails, phones and addresses (and no name).
\<close>

theorem C8_nothing_to_redact:
  assumes "findall0 plain_flags email_pattern txt = []"
    and "findall2 plain_flags phone_pattern txt = []"
    and "nlp txt st = (Inr [], st')"
  shows "anonymize_data nlp txt st =
           (Inr (txt, [(''masked_emails'', PList []), (''masked_phones'', PList []),
                       (''masked_addresses'', PList [])]), st')"
proof -
  have e: "redact_emails txt = txt" using assms(1) by (rule no_emails)
  have p: "post_phone txt = txt" using assms(2) by (simp add: post_phone_def e no_phones)
  have f: "found_emails txt = []" using assms(1) by (simp add: found_emails_def)
  show ?thesis
    using assms(3) no_phones(2) [OF assms(2)]
    by (simp add: anonymize_data_unfold p e f person_names_def location_names_def
        redact_name_def audit_record_def)
qed

section \<open>The tagger's failure\<close>

lemma anonymize_data_error:
  "nlp (post_phone txt) st = (Inl e, st') \<Longrightarrow> anonymize_data nlp txt st = (Inl e, st')"
  by (simp add: anonymize_data_unfold)

text \<open>
  C3, as the code has it: when the tagger raises, \<open>anonymize_data\<close> raises the same
  exception, and so does \<open>process_resume\<close>; no text, no audit record and no flag is
  returned.
\<close>

theorem C3_tagger_error_propagates:
  assumes "nlp (redact_phones (redact_emails (read_text ex file_path content_type))) st
             = (Inl e, st')"
  shows "anonymize_data nlp (read_text ex file_path content_type) st = (Inl e, st') \<and>
         process_resume nlp ex file_path content_type st = (Inl e, st')"
  using assms by (simp add: process_resume_def Let_def anonymize_data_error post_phone_def)

section \<open>The final record\<close>

lemma four_keys:
  "keys d = [a, b, c, e] \<Longrightarrow> \<exists>va vb vc ve. d = [(a, va), (b, vb), (c, vc), (e, ve)]"
  by (auto simp: keys_def map_eq_Cons_conv)

lemma extract_info_shape:
  "extract_info t =
     [(''skills'', section_list (extract_info t) ''skills''),
      (''education'', section_list (extract_info t) ''education''),
      (''experience'', section_list (extract_info t) ''experience''),
      (''certifications'', section_list (extract_info t) ''certifications'')]"
proof -
  obtain va vb vc ve where
    d: "extract_info t = [(''skills'', va), (''education'', vb), (''experience'', vc),
                          (''certifications'', ve)]"
    using four_keys [OF extract_info_keys] by blast
  show ?thesis by (simp add: d section_list_def dict_get_def)
qed

lemma audit_record_keys:
  "set (keys (audit_record es ps ns as)) \<subseteq>
     {''masked_emails'', ''masked_phones'', ''masked_addresses'', ''masked_name''}"
  by (auto simp: audit_record_def split: list.splits)

lemma anonymize_data_keys:
  assumes "anonymize_data nlp txt st = (Inr (t, info), st')"
  shows "set (keys info) \<subseteq>
     {''masked_emails'', ''masked_phones'', ''masked_addresses'', ''masked_name''}"
proof -
  from assms obtain es ps ns as where "info = audit_record es ps ns as"
    by (auto simp: anonymize_data_unfold split: prod.splits sum.splits)
  then show ?thesis using audit_record_keys by simp
qed

text \<open>
  C2, as the code has it: the final record has exactly the five keys of the output
  template, in its order, bound to the skills, the experience, the anonymized text,
  the certifications and the education; no key is omitted and none is null. The audit
  record's emails, phones, name and addresses are not part of it.
\<close>

theorem C2_final_record:
  assumes "anonymize_data nlp (read_text ex file_path content_type) st
             = (Inr (anonymized_text, anonymized_info), st')"
  shows "process_resume nlp ex file_path content_type st =
           (Inr [(''Skill_Set'', PList (section_list (extract_info anonymized_text) ''skills'')),
                 (''Experience_Summary'',
                    PList (section_list (extract_info anonymized_text) ''experience'')),
                 (''Anonymized_Resume_Text'', PStr anonymized_text),
                 (''Certifications_List'',
                    PList (section_list (extract_info anonymized_text) ''certifications'')),
                 (''Education_Records'',
                    PList (section_list (extract_info anonymized_text) ''education''))],
            st')"
proof -
  let ?x = "extract_info anonymized_text"
  define base where
    "base = dict_merge [(''anonymized_resume_text'', PStr anonymized_text)]
              (map (\<lambda>(k, v). (k, PList v)) ?x)"
  have b: "base =
     [(''anonymized_resume_text'', PStr anonymized_text),
      (''skills'', PList (section_list ?x ''skills'')),
      (''education'', PList (section_list ?x ''education'')),
      (''experience'', PList (section_list ?x ''experience'')),
      (''certifications'', PList (section_list ?x ''certifications''))]"
    unfolding base_def by (subst extract_info_shape) (simp add: dict_merge_def)
  have k: "set (keys anonymized_info) \<subseteq>
     {''masked_emails'', ''masked_phones'', ''masked_addresses'', ''masked_name''}"
    using assms by (rule anonymize_data_keys)
  have g: "get_or_none (dict_merge base anonymized_info) key = get_or_none base key"
    if "key \<in> {''skills'', ''education'', ''experience'', ''certifications'',
                ''anonymized_resume_text''}" for key
  proof -
    from that k have "key \<notin> set (keys anonymized_info)" by auto
    then show ?thesis by (simp add: get_or_none_def dict_get_merge_other)
  qed
  have v: "get_or_none base ''skills'' = PList (section_list ?x ''skills'')"
    "get_or_none base ''education'' = PList (section_list ?x ''education'')"
    "get_or_none base ''experience'' = PList (section_list ?x ''experience'')"
    "get_or_none base ''certifications'' = PList (section_list ?x ''certifications'')"
    "get_or_none base ''anonymized_resume_text'' = PStr anonymized_text"
    by (simp_all add: b get_or_none_def dict_get_def)
  show ?thesis
    using assms
    by (simp add: process_resume_def Let_def output_schema_template_def base_def [symmetric]
        g v)
qed

section \<open>What \<open>replace\<close> keeps\<close>

lemma join_Cons: "qs \<noteq> [] \<Longrightarrow> join sep (p # qs) = p @ sep @ join sep qs"
  by (cases qs) simp_all

lemma pieces_from_nonempty: "pieces_from old t \<noteq> []"
  by (induction old t rule: pieces_from.induct) (auto split: list.splits)

lemma replace_from_join:
  "replace_from old new t = join new (pieces_from old t)"
proof (induction old t rule: pieces_from.induct)
  case (1 old)
  then show ?case by simp
next
  case (2 old c cs)
  show ?case
  proof (cases "prefix old (c # cs)")
    case True
    with 2 show ?thesis by (simp add: join_Cons pieces_from_nonempty)
  next
    case False
    obtain p ps where p: "pieces_from old cs = p # ps"
      using pieces_from_nonempty [of old cs] by (cases "pieces_from old cs") auto
    with 2 False show ?thesis by (cases ps) simp_all
  qed
qed

lemma join_pieces_from: "old \<noteq> [] \<Longrightarrow> join old (pieces_from old t) = t"
proof (induction old t rule: pieces_from.induct)
  case (1 old)
  then show ?case by simp
next
  case (2 old c cs)
  show ?case
  proof (cases "prefix old (c # cs)")
    case True
    then obtain zs where z: "c # cs = old @ zs" by (auto simp: prefix_def)
    with 2 obtain os where o: "old = c # os" by (cases old) auto
    with z have d: "drop (length old - 1) cs = zs" by simp
    have "join old (pieces_from old zs) = zs" using 2 True d by simp
    then show ?thesis using True d by (simp add: join_Cons pieces_from_nonempty z [symmetric])
  next
    case False
    obtain p ps where p: "pieces_from old cs = p # ps"
      using pieces_from_nonempty [of old cs] by (cases "pieces_from old cs") auto
    with 2 False show ?thesis by (cases ps) auto
  qed
qed

lemma first_piece_prefix: "old \<noteq> [] \<Longrightarrow> pieces_from old t = p # ps \<Longrightarrow> prefix p t"
  using join_pieces_from [of old t] by (cases ps) (auto simp: prefix_def)

lemma pieces_from_free:
  "old \<noteq> [] \<Longrightarrow> p \<in> set (pieces_from old t) \<Longrightarrow> \<not> sublist old p"
proof (induction old t arbitrary: p rule: pieces_from.induct)
  case (1 old)
  then show ?case by simp
next
  case (2 old c cs)
  show ?case
  proof (cases "prefix old (c # cs)")
    case True
    with 2 show ?thesis by auto
  next
    case False
    obtain q qs where q: "pieces_from old cs = q # qs"
      using pieces_from_nonempty [of old cs] by (cases "pieces_from old cs") auto
    from 2 False q have "p = c # q \<or> p \<in> set (pieces_from old cs)" by auto
    then show ?thesis
    proof
      assume pc: "p = c # q"
      have "prefix q cs" using first_piece_prefix [OF "2.prems"(1) q] .
      then have "prefix (c # q) (c # cs)" by simp
      with False have "\<not> prefix old (c # q)" using prefix_order.trans by blast
      moreover have "\<not> sublist old q" using 2 False q by auto
      ultimately show ?thesis by (simp add: pc sublist_Cons_right)
    next
      assume "p \<in> set (pieces_from old cs)"
      with 2 False show ?thesis by auto
    qed
  qed
qed

lemma join_singletons: "join new (map (\<lambda>c. [c]) t @ [[]]) = concat (map (\<lambda>c. c # new) t)"
  by (induction t) (simp_all add: join_Cons)

lemma replace_join: "replace t old new = join new (pieces old t)"
  by (simp add: replace_def pieces_def replace_from_join join_Cons join_singletons)

lemma join_pieces: "join old (pieces old t) = t"
proof (cases "old = []")
  case True
  have "join [] (map (\<lambda>c. [c]) t @ [[]]) = t" by (induction t) (simp_all add: join_Cons)
  with True show ?thesis by (simp add: pieces_def join_Cons)
next
  case False
  then show ?thesis by (simp add: pieces_def join_pieces_from)
qed

lemma pieces_free: "old \<noteq> [] \<Longrightarrow> p \<in> set (pieces old t) \<Longrightarrow> \<not> sublist old p"
  by (simp add: pieces_def pieces_from_free)

lemma sublist_join: "p \<in> set ps \<Longrightarrow> sublist p (join sep ps)"
proof (induction sep ps rule: join.induct)
  case (3 sep q r ps)
  then show ?case
    by (auto simp: sublist_append intro: sublist_order.order.trans)
qed simp_all

lemma piece_sublist: "p \<in> set (pieces old t) \<Longrightarrow> sublist p t"
  using sublist_join [of p "pieces old t" old] by (simp add: join_pieces)

lemma sublist_around:
  assumes "c \<notin> set x" and "sublist x (u @ c # v)"
  shows "sublist x u \<or> sublist x v"
proof -
  from assms(2) consider "sublist x u" | "sublist x (c # v)"
    | x1 x2 where "x = x1 @ x2" "suffix x1 u" "prefix x2 (c # v)"
    by (auto simp: sublist_append)
  then show ?thesis
  proof cases
    case 1
    then show ?thesis by simp
  next
    case 2
    then have "prefix x (c # v) \<or> sublist x v" by (simp add: sublist_Cons_right)
    then show ?thesis
    proof
      assume "prefix x (c # v)"
      with assms(1) have "x = []" by (cases x) auto
      then show ?thesis by simp
    qed simp
  next
    case 3
    from 3(3) assms(1) 3(1) have "x2 = []" by (cases x2) auto
    with 3 have "suffix x u" by simp
    then show ?thesis using suffix_imp_sublist by blast
  qed
qed

lemma join_bracketed_free:
  assumes "x \<noteq> []" and "b \<notin> set x" and "e \<notin> set x" and "\<not> sublist x mid"
    and "\<forall>p \<in> set ps. \<not> sublist x p"
  shows "\<not> sublist x (join (b # mid @ [e]) ps)"
  using assms(5)
proof (induction "b # mid @ [e]" ps rule: join.induct)
  case 1
  with assms(1) show ?case by simp
next
  case (2 p)
  then show ?case by simp
next
  case (3 p q ps)
  show ?case
  proof
    assume "sublist x (join (b # mid @ [e]) (p # q # ps))"
    then have "sublist x (p @ b # (mid @ e # join (b # mid @ [e]) (q # ps)))" by simp
    with assms(2) have "sublist x p \<or> sublist x (mid @ e # join (b # mid @ [e]) (q # ps))"
      by (rule sublist_around)
    with 3 have "sublist x (mid @ e # join (b # mid @ [e]) (q # ps))" by simp
    with assms(3) have "sublist x mid \<or> sublist x (join (b # mid @ [e]) (q # ps))"
      by (rule sublist_around)
    with assms(4) 3 show False by simp
  qed
qed

lemma replace_keeps_free:
  assumes "x \<noteq> []" and "b \<notin> set x" and "e \<notin> set x" and "\<not> sublist x mid"
    and "\<not> sublist x t"
  shows "\<not> sublist x (replace t old (b # mid @ [e]))"
proof -
  have "\<forall>p \<in> set (pieces old t). \<not> sublist x p"
    using assms(5) piece_sublist sublist_order.order.trans by blast
  with assms(1-4) show ?thesis by (simp only: replace_join join_bracketed_free not_False_eq_True)
qed

lemma replace_removes:
  assumes "x \<noteq> []" and "b \<notin> set x" and "e \<notin> set x" and "\<not> sublist x mid"
  shows "\<not> sublist x (replace t x (b # mid @ [e]))"
proof -
  have "\<forall>p \<in> set (pieces x t). \<not> sublist x p"
    using assms(1) pieces_free by blast
  with assms(1-4) show ?thesis by (simp only: replace_join join_bracketed_free not_False_eq_True)
qed

lemma name_placeholder_form: "name_placeholder = CHR ''['' # ''CANDIDATE NAME'' @ [CHR '']'']"
  by (simp add: name_placeholder_def)

lemma address_placeholder_form: "address_placeholder = CHR ''['' # ''ADDRESS'' @ [CHR '']'']"
  by (simp add: address_placeholder_def)

lemma replace_addresses_keeps_free:
  assumes "x \<noteq> []" and "CHR ''['' \<notin> set x" and "CHR '']'' \<notin> set x"
    and "\<not> sublist x ''ADDRESS''"
  shows "\<not> sublist x t \<Longrightarrow> \<not> sublist x (replace_addresses t as)"
proof (induction as arbitrary: t)
  case Nil
  then show ?case by simp
next
  case (Cons a as)
  have "\<not> sublist x (replace t a address_placeholder)"
    unfolding address_placeholder_form
    using assms Cons.prems by (rule replace_keeps_free)
  then show ?case using Cons.IH by simp
qed

lemma replace_addresses_removes:
  assumes "x \<noteq> []" and "CHR ''['' \<notin> set x" and "CHR '']'' \<notin> set x"
    and "\<not> sublist x ''ADDRESS''"
  shows "x \<in> set as \<Longrightarrow> \<not> sublist x (replace_addresses t as)"
proof (induction as arbitrary: t)
  case Nil
  then show ?case by simp
next
  case (Cons a as)
  show ?case
  proof (cases "x = a")
    case True
    have "\<not> sublist x (replace t x address_placeholder)"
      unfolding address_placeholder_form using assms by (rule replace_removes)
    then show ?thesis
      using True replace_addresses_keeps_free [OF assms] by simp
  next
    case False
    with Cons show ?thesis by simp
  qed
qed

lemma audit_record_name:
  "dict_get (audit_record es ps ns as) ''masked_name'' = Some v
     \<longleftrightarrow> (\<exists>n more. ns = n # more \<and> v = PStr n)"
  by (auto simp: audit_record_def dict_get_def split: list.splits)

lemma audit_record_addresses:
  "dict_get (audit_record es ps ns as) ''masked_addresses'' = Some (PList as)"
  by (simp add: audit_record_def dict_get_def)

lemma audit_record_emails:
  "dict_get (audit_record es ps ns as) ''masked_emails'' = Some (PList es)"
  by (simp add: audit_record_def dict_get_def)

lemma audit_record_phones:
  "dict_get (audit_record es ps ns as) ''masked_phones'' = Some (PList ps)"
  by (simp add: audit_record_def dict_get_def)

lemma anonymize_data_result:
  assumes "anonymize_data nlp txt st = (Inr (t, info), st')"
  obtains ents where "nlp (post_phone txt) st = (Inr ents, st')"
    and "t = replace_addresses (redact_name (person_names ents) (post_phone txt))
               (location_names ents)"
    and "info = audit_record (found_emails txt) (found_phones (redact_emails txt))
                  (person_names ents) (location_names ents)"
  using assms by (auto simp: anonymize_data_unfold split: prod.splits sum.splits)

text \<open>
  C1, as the code has it: a recorded candidate name, and a recorded address, that is
  not empty, has no square bracket in it and is not part of the placeholder's own
  words does not occur in the returned text. (Nothing of the kind holds for the
  recorded emails and phones.)
\<close>

theorem C1_name_and_addresses_removed:
  assumes "anonymize_data nlp txt st = (Inr (anonymized_text, anonymized_info), st')"
    and "x \<noteq> []" and "CHR ''['' \<notin> set x" and "CHR '']'' \<notin> set x"
    and "\<not> sublist x ''ADDRESS''"
  shows "(dict_get anonymized_info ''masked_name'' = Some (PStr x) \<and>
            \<not> sublist x ''CANDIDATE NAME'' \<longrightarrow> \<not> sublist x anonymized_text) \<and>
         (\<forall>as. dict_get anonymized_info ''masked_addresses'' = Some (PList as) \<and> x \<in> set as
            \<longrightarrow> \<not> sublist x anonymized_text)"
proof -
  from assms(1) obtain ents where
    t: "anonymized_text =
          replace_addresses (redact_name (person_names ents) (post_phone txt))
            (location_names ents)"
    and i: "anonymized_info =
          audit_record (found_emails txt) (found_phones (redact_emails txt))
            (person_names ents) (location_names ents)"
    by (rule anonymize_data_result)
  have name: "\<not> sublist x anonymized_text"
    if n: "dict_get anonymized_info ''masked_name'' = Some (PStr x)"
      and c: "\<not> sublist x ''CANDIDATE NAME''"
  proof -
    from n obtain more where "person_names ents = x # more"
      by (auto simp: i audit_record_name)
    then have "redact_name (person_names ents) (post_phone txt)
                 = replace (post_phone txt) x name_placeholder"
      by (simp add: redact_name_def)
    moreover have "\<not> sublist x (replace (post_phone txt) x name_placeholder)"
      unfolding name_placeholder_form using assms(2-4) c by (rule replace_removes)
    ultimately show ?thesis
      unfolding t using replace_addresses_keeps_free [OF assms(2-5)] by simp
  qed
  have addr: "\<not> sublist x anonymized_text"
    if "dict_get anonymized_info ''masked_addresses'' = Some (PList as)" and "x \<in> set as"
    for as
  proof -
    from that have "x \<in> set (location_names ents)"
      by (simp add: i audit_record_addresses)
    then show ?thesis
      unfolding t by (rule replace_addresses_removes [OF assms(2-5)])
  qed
  from name addr show ?thesis by blast
qed

text \<open>
  C6: when the tagger reports a PERSON entity, the candidate name is the text of the
  first one in the order of \<open>doc.ents\<close>; it is stored under \<open>masked_name\<close>; and the name
  pass turns the text after the phone pass, cut at the occurrences of the name into
  pieces that hold no occurrence, into the same pieces joined by the placeholder (so
  every occurrence is replaced), before the address pass runs on the result.
\<close>

theorem C6_candidate_name:
  assumes "nlp (redact_phones (redact_emails txt)) st = (Inr ents, st')"
    and "filter (\<lambda>en. ent_label en = ''PERSON'') ents = first # others"
  shows "\<exists>info.
           anonymize_data nlp txt st =
             (Inr (replace_addresses
                     (replace (redact_phones (redact_emails txt)) (ent_text first)
                        name_placeholder)
                     (location_names ents), info), st') \<and>
           dict_get info ''masked_name'' = Some (PStr (ent_text first)) \<and>
           join (ent_text first) (pieces (ent_text first) (redact_phones (redact_emails txt)))
             = redact_phones (redact_emails txt) \<and>
           replace (redact_phones (redact_emails txt)) (ent_text first) name_placeholder
             = join name_placeholder
                 (pieces (ent_text first) (redact_phones (redact_emails txt))) \<and>
           (ent_text first \<noteq> [] \<longrightarrow>
              (\<forall>p \<in> set (pieces (ent_text first) (redact_phones (redact_emails txt))).
                 \<not> sublist (ent_text first) p))"
proof -
  have n: "person_names ents = ent_text first # map ent_text others"
    using assms(2) by (simp add: person_names_def)
  show ?thesis
    using assms(1)
    by (simp add: anonymize_data_unfold post_phone_def n redact_name_def audit_record_name
        join_pieces replace_join [symmetric] pieces_free)
qed

text \<open>
  C7: the passes run in the order email, phone, entity. The phones are searched in
  the text after the email pass; the tagger is called on the text after the phone
  pass, and the state it is left in is the state after that one call; the names and
  the addresses are taken from the entities of that call.
\<close>

theorem C7_pass_order:
  "snd (anonymize_data nlp txt st) = snd (nlp (redact_phones (redact_emails txt)) st) \<and>
   (\<forall>ents st'. nlp (redact_phones (redact_emails txt)) st = (Inr ents, st') \<longrightarrow>
      anonymize_data nlp txt st =
        (Inr (replace_addresses
                (redact_name (person_names ents) (redact_phones (redact_emails txt)))
                (location_names ents),
              audit_record (found_emails txt) (found_phones (redact_emails txt))
                (person_names ents) (location_names ents)), st'))"
  by (simp add: anonymize_data_unfold post_phone_def split: prod.splits sum.splits)

section \<open>The header \<open>Experience\<close>\<close>

lemma run_lits_here:
  "run fl (lits w) \<lparr>prev = p, rest = w @ body, caps = c\<rparr> =
     [\<lparr>prev = (if w = [] then p else Some (last w)), rest = body, caps = c\<rparr>]"
proof (induction w arbitrary: p)
  case Nil
  then show ?case by (simp add: lits_def seqs_def)
next
  case (Cons x w)
  have "run fl (lits (x # w)) \<lparr>prev = p, rest = (x # w) @ body, caps = c\<rparr> =
        run fl (lits w) \<lparr>prev = Some x, rest = w @ body, caps = c\<rparr>"
    by (simp add: lits_def seqs_def one_char_def advance_def lit_ok_def)
  then show ?case using Cons.IH [of "Some x"] by simp
qed

lemma experience_header_match:
  "search section_flags experience_pattern (''Experience'' @ body) =
     Some \<lparr>skipped = [], matched = ''Experience'', groups = []\<rparr>"
proof -
  have "run section_flags (lits ''Experience'') (start_state None (''Experience'' @ body)) =
          [\<lparr>prev = Some CHR ''e'', rest = body, caps = []\<rparr>]"
    unfolding start_state_def by (subst run_lits_here) simp
  then have "match_here section_flags experience_pattern None (''Experience'' @ body) =
          Some \<lparr>skipped = [], matched = ''Experience'', groups = []\<rparr>"
    by (simp add: match_here_def experience_pattern_def)
  then show ?thesis by (simp add: search_def)
qed

lemma extract_section_other:
  "k \<noteq> key \<Longrightarrow> dict_get (extract_section pat sep key t d) k = dict_get d k"
  using extract_section_cases [of pat sep key t d] by (auto simp: dict_get_set)

text \<open>
  Whatever follows it, a text that starts with the header \<open>Experience\<close> gets an empty
  experience list: the match is the bare word, and its first group took no part.
\<close>

lemma experience_header_first:
  "section_list (extract_info (''Experience'' @ body)) ''experience'' = []"
proof -
  have e: "extract_section experience_pattern newline ''experience''
             (''Experience'' @ body) d = d" for d
    by (simp only: extract_section_def experience_header_match) (simp add: group_def)
  have o: "dict_get (extract_section pat sep ''certifications'' t d) ''experience''
             = dict_get d ''experience''"
    "dict_get (extract_section pat sep ''education'' t d) ''experience''
             = dict_get d ''experience''"
    "dict_get (extract_section pat sep ''skills'' t d) ''experience''
             = dict_get d ''experience''" for pat sep t d
    by (rule extract_section_other, simp)+
  have "dict_get (extract_info (''Experience'' @ body)) ''experience'' = Some []"
    unfolding extract_info_def Let_def e o by (simp add: dict_get_def)
  then show ?thesis by (simp add: section_list_def)
qed

section \<open>The scenarios\<close>

lemma scenario1_emails:
  "found_emails scenario1 = [''jane@example.com'']"
  "redact_emails scenario1 = ''Contact: ***@***.com or 555-123-4567. Skills: Python, SQL, Go''"
  by code_simp+

lemma scenario1_phones:
  "found_phones ''Contact: ***@***.com or 555-123-4567. Skills: Python, SQL, Go'' = [''555-123-4567'']"
  "redact_phones ''Contact: ***@***.com or 555-123-4567. Skills: Python, SQL, Go'' = scenario1_anonymized"
  by code_simp+

lemma scenario1_sections:
  "extract_info scenario1_anonymized =
     [(''skills'', [''Python'', ''SQL'', ''Go'']), (''education'', []), (''experience'', []),
      (''certifications'', [])]"
  by code_simp

lemma scenario3_emails:
  "found_emails scenario3 = [''j@d.io'']"
  "redact_emails scenario3 = ''Jane Doe ***@***.com 5551234567 Paris. Jane Doe and John Roe''"
  by code_simp+

lemma scenario3_phones:
  "found_phones ''Jane Doe ***@***.com 5551234567 Paris. Jane Doe and John Roe'' = [''5551234567'']"
  "redact_phones ''Jane Doe ***@***.com 5551234567 Paris. Jane Doe and John Roe'' = ''Jane Doe ***@***.com XXX-XXX-XXXX Paris. Jane Doe and John Roe''"
  by code_simp+

lemma scenario3_entities:
  "replace (replace ''Jane Doe ***@***.com XXX-XXX-XXXX Paris. Jane Doe and John Roe'' ''Jane Doe'' name_placeholder) ''Paris'' address_placeholder
    = ''[CANDIDATE NAME] ***@***.com XXX-XXX-XXXX [ADDRESS]. [CANDIDATE NAME] and John Roe''"
  by code_simp

lemma read_pdf: "read_text (pdf_of t) () ''application/pdf'' = t"
  by (simp add: read_text_def pdf_of_def)

lemma scenario1_redacted:
  "anonymize_data silent_tagger scenario1 0 =
     (Inr (scenario1_anonymized,
           [(''masked_emails'', PList [''jane@example.com'']),
            (''masked_phones'', PList [''555-123-4567'']),
            (''masked_addresses'', PList [])]), 1)"
  by (simp add: anonymize_data_unfold post_phone_def scenario1_emails scenario1_phones
      silent_tagger_def person_names_def location_names_def redact_name_def audit_record_def)

lemma scenario3_redacted:
  "anonymize_data jane_tagger scenario3 [] =
     (Inr (''[CANDIDATE NAME] ***@***.com XXX-XXX-XXXX [ADDRESS]. [CANDIDATE NAME] and John Roe'',
           [(''masked_emails'', PList [''j@d.io'']),
            (''masked_phones'', PList [''5551234567'']),
            (''masked_addresses'', PList [''Paris'']),
            (''masked_name'', PStr ''Jane Doe'')]),
      [''Jane Doe ***@***.com XXX-XXX-XXXX Paris. Jane Doe and John Roe''])"
  by (simp add: anonymize_data_unfold post_phone_def scenario3_emails scenario3_phones
      jane_tagger_def person_names_def location_names_def redact_name_def audit_record_def
      scenario3_entities)

theorem C1_leak_counterexample:
  "anonymize_data silent_tagger leak_email 0 =
     (Inr (''a@b.cc_ ***@***.com'',
           [(''masked_emails'', PList [''a@b.cc'']), (''masked_phones'', PList []),
            (''masked_addresses'', PList [])]), 1) \<and>
   sublist ''a@b.cc'' ''a@b.cc_ ***@***.com'' \<and>
   anonymize_data silent_tagger leak_phone 0 =
     (Inr (''a5551234567 XXX-XXX-XXXX'',
           [(''masked_emails'', PList []), (''masked_phones'', PList [''5551234567'']),
            (''masked_addresses'', PList [])]), 1) \<and>
   sublist ''5551234567'' ''a5551234567 XXX-XXX-XXXX'' \<and>
   anonymize_data an_tagger ''AN'' 0 =
     (Inr (''[CANDIDATE NAME]'',
           [(''masked_emails'', PList []), (''masked_phones'', PList []),
            (''masked_addresses'', PList []), (''masked_name'', PStr ''AN'')]), 1) \<and>
   sublist ''AN'' ''[CANDIDATE NAME]''"
  by code_simp

theorem C1_witness:
  "anonymize_data jane_tagger scenario3 [] =
     (Inr (''[CANDIDATE NAME] ***@***.com XXX-XXX-XXXX [ADDRESS]. [CANDIDATE NAME] and John Roe'',
           [(''masked_emails'', PList [''j@d.io'']),
            (''masked_phones'', PList [''5551234567'']),
            (''masked_addresses'', PList [''Paris'']),
            (''masked_name'', PStr ''Jane Doe'')]),
      [''Jane Doe ***@***.com XXX-XXX-XXXX Paris. Jane Doe and John Roe'']) \<and>
   \<not> sublist ''Jane Doe''
      ''[CANDIDATE NAME] ***@***.com XXX-XXX-XXXX [ADDRESS]. [CANDIDATE NAME] and John Roe'' \<and>
   \<not> sublist ''Paris''
      ''[CANDIDATE NAME] ***@***.com XXX-XXX-XXXX [ADDRESS]. [CANDIDATE NAME] and John Roe''"
proof -
  have j: "''Jane Doe'' \<noteq> []" "CHR ''['' \<notin> set ''Jane Doe''" "CHR '']'' \<notin> set ''Jane Doe''"
    "\<not> sublist ''Jane Doe'' ''ADDRESS''" "\<not> sublist ''Jane Doe'' ''CANDIDATE NAME''"
    by code_simp+
  have p: "''Paris'' \<noteq> []" "CHR ''['' \<notin> set ''Paris''" "CHR '']'' \<notin> set ''Paris''"
    "\<not> sublist ''Paris'' ''ADDRESS''"
    by code_simp+
  show ?thesis
    using C1_name_and_addresses_removed [OF scenario3_redacted j(1-4)]
      C1_name_and_addresses_removed [OF scenario3_redacted p] j(5)
    by (simp add: scenario3_redacted dict_get_def)
qed

theorem C2_audit_dropped_counterexample:
  "anonymize_data silent_tagger scenario1 0 =
     (Inr (scenario1_anonymized,
           [(''masked_emails'', PList [''jane@example.com'']),
            (''masked_phones'', PList [''555-123-4567'']),
            (''masked_addresses'', PList [])]), 1) \<and>
   process_resume silent_tagger (pdf_of scenario1) () ''application/pdf'' 0 =
     (Inr [(''Skill_Set'', PList [''Python'', ''SQL'', ''Go'']),
           (''Experience_Summary'', PList []),
           (''Anonymized_Resume_Text'', PStr scenario1_anonymized),
           (''Certifications_List'', PList []),
           (''Education_Records'', PList [])], 1) \<and>
   PList [''jane@example.com''] \<notin>
     snd ` set [(''Skill_Set'', PList [''Python'', ''SQL'', ''Go'']),
           (''Experience_Summary'', PList []),
           (''Anonymized_Resume_Text'', PStr scenario1_anonymized),
           (''Certifications_List'', PList []),
           (''Education_Records'', PList [])]"
  by (simp add: scenario1_redacted process_resume_def Let_def read_pdf scenario1_sections
      dict_merge_def output_schema_template_def get_or_none_def dict_get_def)

theorem C2_witness:
  "process_resume silent_tagger (pdf_of scenario1) () ''application/pdf'' 0 =
     (Inr [(''Skill_Set'', PList [''Python'', ''SQL'', ''Go'']),
           (''Experience_Summary'', PList []),
           (''Anonymized_Resume_Text'', PStr scenario1_anonymized),
           (''Certifications_List'', PList []),
           (''Education_Records'', PList [])], 1)"
proof -
  have h: "anonymize_data silent_tagger (read_text (pdf_of scenario1) () ''application/pdf'') 0 =
     (Inr (scenario1_anonymized,
           [(''masked_emails'', PList [''jane@example.com'']),
            (''masked_phones'', PList [''555-123-4567'']),
            (''masked_addresses'', PList [])]), 1)"
    by (simp add: read_pdf scenario1_redacted)
  show ?thesis
    using C2_final_record [OF h]
    by (simp add: scenario1_sections section_list_def dict_get_def)
qed

theorem C3_no_degraded_mode_counterexample:
  "anonymize_data failing_tagger ''Call 555-123-4567'' 0 = (Inl ''TaggerUnavailable'', 1)"
  by (simp add: anonymize_data_unfold failing_tagger_def)

theorem C3_witness:
  "anonymize_data failing_tagger (read_text (pdf_of scenario1) () ''application/pdf'') 0
     = (Inl ''TaggerUnavailable'', 1) \<and>
   process_resume failing_tagger (pdf_of scenario1) () ''application/pdf'' 0
     = (Inl ''TaggerUnavailable'', 1)"
proof -
  have h: "failing_tagger
             (redact_phones (redact_emails (read_text (pdf_of scenario1) () ''application/pdf''))) 0
           = (Inl ''TaggerUnavailable'', 1)"
    by (simp add: failing_tagger_def)
  show ?thesis using C3_tagger_error_propagates [where nlp = failing_tagger, OF h] .
qed

text \<open>
  C4: with the header \<open>Experience\<close> the experience list stays empty: the pattern's
  first branch matches the bare word and has no group.
\<close>

theorem C4_experience_header_captures_nothing:
  "extract_info ''Experience:\<newline>Acme Corp\<newline>Engineer'' =
     [(''skills'', []), (''education'', []), (''experience'', []), (''certifications'', [])]"
  by code_simp

lemma work_history_sections:
  "extract_info ''Work History:\<newline>Acme Corp\<newline>Engineer'' =
     [(''skills'', []), (''education'', []), (''experience'', [''Acme Corp'', ''Engineer'']),
      (''certifications'', [])]"
  by code_simp

text \<open>
  C5 on the specification's second scenario, continued with an experience body: the
  education list is as stated, the experience list is empty.
\<close>

theorem C5_scenario2:
  "extract_info scenario2 =
     [(''skills'', []), (''education'', [''BSc Computer Science, MIT'']), (''experience'', []),
      (''certifications'', [])]"
  by code_simp

theorem C6_witness:
  "\<exists>info. anonymize_data jane_tagger scenario3 [] =
     (Inr (''[CANDIDATE NAME] ***@***.com XXX-XXX-XXXX [ADDRESS]. [CANDIDATE NAME] and John Roe'',
           info),
      [''Jane Doe ***@***.com XXX-XXX-XXXX Paris. Jane Doe and John Roe'']) \<and>
     dict_get info ''masked_name'' = Some (PStr ''Jane Doe'')"
proof -
  let ?first = "\<lparr>ent_text = ''Jane Doe'', ent_label = ''PERSON''\<rparr>"
  let ?ents = "[?first, \<lparr>ent_text = ''Paris'', ent_label = ''GPE''\<rparr>,
                \<lparr>ent_text = ''John Roe'', ent_label = ''PERSON''\<rparr>]"
  have h: "jane_tagger (redact_phones (redact_emails scenario3)) [] =
             (Inr ?ents, [redact_phones (redact_emails scenario3)])"
    by (simp add: jane_tagger_def)
  have f: "filter (\<lambda>en. ent_label en = ''PERSON'') ?ents =
             ?first # [\<lparr>ent_text = ''John Roe'', ent_label = ''PERSON''\<rparr>]"
    by simp
  from C6_candidate_name [where nlp = jane_tagger, OF h f] show ?thesis
    by (auto simp: scenario3_emails scenario3_phones scenario3_entities location_names_def)
qed

theorem C7_witness:
  "anonymize_data jane_tagger scenario3 [] =
     (Inr (''[CANDIDATE NAME] ***@***.com XXX-XXX-XXXX [ADDRESS]. [CANDIDATE NAME] and John Roe'',
           [(''masked_emails'', PList [''j@d.io'']),
            (''masked_phones'', PList [''5551234567'']),
            (''masked_addresses'', PList [''Paris'']),
            (''masked_name'', PStr ''Jane Doe'')]),
      [''Jane Doe ***@***.com XXX-XXX-XXXX Paris. Jane Doe and John Roe''])"
proof -
  let ?ents = "[\<lparr>ent_text = ''Jane Doe'', ent_label = ''PERSON''\<rparr>,
                \<lparr>ent_text = ''Paris'', ent_label = ''GPE''\<rparr>,
                \<lparr>ent_text = ''John Roe'', ent_label = ''PERSON''\<rparr>]"
  have h: "jane_tagger (redact_phones (redact_emails scenario3)) [] =
             (Inr ?ents, [redact_phones (redact_emails scenario3)])"
    by (simp add: jane_tagger_def)
  from C7_pass_order [of jane_tagger scenario3 "[]"] h
  have "anonymize_data jane_tagger scenario3 [] =
        (Inr (replace_addresses
                (redact_name (person_names ?ents) (redact_phones (redact_emails scenario3)))
                (location_names ?ents),
              audit_record (found_emails scenario3) (found_phones (redact_emails scenario3))
                (person_names ?ents) (location_names ?ents)),
         [redact_phones (redact_emails scenario3)])"
    by blast
  then show ?thesis
    by (simp add: scenario3_emails scenario3_phones scenario3_entities location_names_def
        person_names_def redact_name_def audit_record_def)
qed

theorem C8_witness:
  "anonymize_data silent_tagger ''Hello world'' 0 =
     (Inr (''Hello world'',
           [(''masked_emails'', PList []), (''masked_phones'', PList []),
            (''masked_addresses'', PList [])]), 1)"
proof -
  have a: "findall0 plain_flags email_pattern ''Hello world'' = []" by code_simp
  have b: "findall2 plain_flags phone_pattern ''Hello world'' = []" by code_simp
  have c: "silent_tagger ''Hello world'' 0 = (Inr [], 1)" by (simp add: silent_tagger_def)
  show ?thesis using C8_nothing_to_redact [where nlp = silent_tagger, OF a b c] .
qed

text \<open>
  The recorded phone of the first scenario is the text as matched, separators
  included: it is not a string of digits, and the ten digits alone are not recorded.
\<close>

theorem C9_phone_not_normalized_counterexample:
  "anonymize_data silent_tagger scenario1 0 =
     (Inr (scenario1_anonymized,
           [(''masked_emails'', PList [''jane@example.com'']),
            (''masked_phones'', PList [''555-123-4567'']),
            (''masked_addresses'', PList [])]), 1) \<and>
   \<not> list_all is_digit ''555-123-4567'' \<and>
   ''5551234567'' \<notin> set [''555-123-4567'']"
proof -
  have "\<not> list_all is_digit ''555-123-4567''"
    and "''5551234567'' \<notin> set [''555-123-4567'']"
    by (code_simp, code_simp)
  then show ?thesis by (simp add: scenario1_redacted)
qed

lemma prefixed_phone_match:
  "map matched (finditer plain_flags phone_pattern prefixed_phone) = [''1 555-123-4567'']"
  by code_simp

lemma prefixed_phone_redacted:
  "anonymize_data silent_tagger prefixed_phone 0 =
     (Inr (''call XXX-XXX-XXXX now'',
           [(''masked_emails'', PList []), (''masked_phones'', PList [''555-123-4567'']),
            (''masked_addresses'', PList [])]), 1)"
  by code_simp

text \<open>
  C9, as the code has it: on the specification's first scenario the recorded emails
  are \<open>jane@example.com\<close>, the recorded phones are \<open>555-123-4567\<close>, the text holds both
  placeholders and the skills are Python, SQL and Go. The recorded phone is the text
  of the phone matcher's second group as it stands in the text, not a normalized
  string: behind a country-code prefix the whole match is \<open>1 555-123-4567\<close> and the
  recorded phone is still \<open>555-123-4567\<close>.
\<close>

theorem C9_scenario1:
  "anonymize_data silent_tagger scenario1 0 =
     (Inr (scenario1_anonymized,
           [(''masked_emails'', PList [''jane@example.com'']),
            (''masked_phones'', PList [''555-123-4567'']),
            (''masked_addresses'', PList [])]), 1) \<and>
   sublist ''***@***.com'' scenario1_anonymized \<and>
   sublist ''XXX-XXX-XXXX'' scenario1_anonymized \<and>
   section_list (extract_info scenario1_anonymized) ''skills'' = [''Python'', ''SQL'', ''Go''] \<and>
   map matched (finditer plain_flags phone_pattern prefixed_phone) = [''1 555-123-4567''] \<and>
   anonymize_data silent_tagger prefixed_phone 0 =
     (Inr (''call XXX-XXX-XXXX now'',
           [(''masked_emails'', PList []), (''masked_phones'', PList [''555-123-4567'']),
            (''masked_addresses'', PList [])]), 1)"
proof -
  have "sublist ''***@***.com'' scenario1_anonymized"
    and "sublist ''XXX-XXX-XXXX'' scenario1_anonymized"
    by (code_simp, code_simp)
  then show ?thesis
    by (simp add: scenario1_redacted scenario1_sections section_list_def dict_get_def
        prefixed_phone_match prefixed_phone_redacted)
qed

theorem C10_witness:
  "(''skills'', [''Python'', ''SQL'', ''Go'']) \<in> set (extract_info scenario1_anonymized) \<and>
   ''SQL'' \<in> set [''Python'', ''SQL'', ''Go''] \<and>
   ''SQL'' \<noteq> [] \<and> \<not> is_space (hd ''SQL'') \<and> \<not> is_space (last ''SQL'') \<and>
   keys (extract_info scenario1_anonymized) =
     [''skills'', ''education'', ''experience'', ''certifications'']"
proof -
  have m: "(''skills'', [''Python'', ''SQL'', ''Go'']) \<in> set (extract_info scenario1_anonymized)"
    by (simp add: scenario1_sections)
  from C10_sections_wellformed [of scenario1_anonymized] m show ?thesis by fastforce
qed

end
